theory Spec2Isabelle
  imports Main "HOL-Library.Word" "HOL-Library.Signed_Division"
begin

section \<open>Data model of the tile manager\<close>

text \<open>
  The Go source declares \<^verbatim>\<open>TileSize = 256\<close>, \<^verbatim>\<open>MaxZoom = 19\<close>, \<^verbatim>\<open>MinZoom = 1\<close>.
  Go's \<^verbatim>\<open>int\<close> is modelled as a 64-bit two's-complement word (the size on
  64-bit targets): \<open>+\<close> wraps around, \<open>sint\<close> reads the signed value.
\<close>

type_synonym go_int = "64 word"
type_synonym byte = "8 word"

definition TileSize :: go_int where
  "TileSize = 256"

definition MaxZoom :: go_int where
  "MaxZoom = 19"

definition MinZoom :: go_int where
  "MinZoom = 1"

datatype MapSource = MapSourceStreet | MapSourceSatellite

record TileCoord =
  X :: go_int
  Y :: go_int
  Z :: go_int

type_synonym TileCacheKey = "TileCoord \<times> MapSource"

text \<open>
  \<^verbatim>\<open>TileManager\<close>: the struct's fields, without the mutex (every function below
  is one or several critical sections) and the HTTP client (a constant
  configuration). \<^verbatim>\<open>tiles\<close> is a Go map to non-nil image pointers, \<^verbatim>\<open>loading\<close>
  a Go \<^verbatim>\<open>map[TileCacheKey]bool\<close>; the image type is left abstract.
\<close>

record 'img TileManager =
  cacheDir :: string
  source :: MapSource
  tiles :: "TileCacheKey \<rightharpoonup> 'img"
  loading :: "TileCacheKey \<rightharpoonup> bool"

definition NewTileManager :: "string \<Rightarrow> 'img TileManager" where
  "NewTileManager dir =
     \<lparr>cacheDir = dir, source = MapSourceSatellite, tiles = Map.empty, loading = Map.empty\<rparr>"

definition SetSource :: "'img TileManager \<Rightarrow> MapSource \<Rightarrow> 'img TileManager" where
  "SetSource tm src = tm\<lparr>source := src\<rparr>"

definition GetSource :: "'img TileManager \<Rightarrow> MapSource" where
  "GetSource tm = source tm"

text \<open>\<^verbatim>\<open>ToggleSource\<close> returns the new source together with the updated manager.\<close>

definition ToggleSource :: "'img TileManager \<Rightarrow> MapSource \<times> 'img TileManager" where
  "ToggleSource tm =
     (let tm' = (if source tm = MapSourceStreet
                 then tm\<lparr>source := MapSourceSatellite\<rparr>
                 else tm\<lparr>source := MapSourceStreet\<rparr>)
      in (source tm', tm'))"

text \<open>\<^verbatim>\<open>ClearCache\<close> replaces the tiles map by a fresh empty one.\<close>

definition ClearCache :: "'img TileManager \<Rightarrow> 'img TileManager" where
  "ClearCache tm = tm\<lparr>tiles := Map.empty\<rparr>"

section \<open>The world outside the manager: disk cache and tile server\<close>

text \<open>
  Paths and URLs. \<^verbatim>\<open>fmt.Sprintf("%d", i)\<close> prints the signed decimal of \<open>i\<close>;
  \<^verbatim>\<open>filepath.Join\<close> is kept as the list of the joined components.
\<close>

type_synonym path = "string list"
type_synonym url = string

fun digits10 :: "nat \<Rightarrow> string" where
  "digits10 n =
     (if n < 10 then [''0123456789'' ! n]
      else digits10 (n div 10) @ [''0123456789'' ! (n mod 10)])"

definition sprint_d :: "go_int \<Rightarrow> string" where
  "sprint_d i = (if sint i < 0 then ''-'' @ digits10 (nat (- sint i)) else digits10 (nat (sint i)))"

definition cachePath :: "'img TileManager \<Rightarrow> TileCoord \<Rightarrow> MapSource \<Rightarrow> path" where
  "cachePath tm coord src =
     (let sourceDir = (if src = MapSourceStreet then ''street'' else ''satellite'')
      in [cacheDir tm, sourceDir,
          sprint_d (Z coord) @ ''_'' @ sprint_d (X coord) @ ''_'' @ sprint_d (Y coord) @ ''.jpg''])"

definition tileURL :: "TileCoord \<Rightarrow> MapSource \<Rightarrow> url" where
  "tileURL coord src =
     (case src of
        MapSourceStreet \<Rightarrow>
          ''https://server.arcgisonline.com/ArcGIS/rest/services/World_Street_Map/MapServer/tile/''
            @ sprint_d (Z coord) @ ''/'' @ sprint_d (Y coord) @ ''/'' @ sprint_d (X coord)
      | MapSourceSatellite \<Rightarrow>
          ''https://server.arcgisonline.com/ArcGIS/rest/services/World_Imagery/MapServer/tile/''
            @ sprint_d (Z coord) @ ''/'' @ sprint_d (Y coord) @ ''/'' @ sprint_d (X coord))"

text \<open>
  What a GET of a URL does: \<^verbatim>\<open>http.NewRequest\<close> fails, \<^verbatim>\<open>client.Do\<close> fails
  (transport error or the 10 s timeout), or a response arrives with a status code
  and a body that \<^verbatim>\<open>io.ReadAll\<close> reads or fails to read.
\<close>

datatype read_outcome = ReadError | Body "byte list"

datatype http_outcome = RequestError | DoError | Response go_int read_outcome

text \<open>
  The world: the files that open and read, whether a cache file can be written
  (\<^verbatim>\<open>os.MkdirAll\<close> and \<^verbatim>\<open>os.WriteFile\<close>), the server's behaviour, the requests sent
  through \<^verbatim>\<open>client.Do\<close> so far, and the decoder (\<^verbatim>\<open>image.Decode\<close> followed by
  \<^verbatim>\<open>ebiten.NewImageFromImage\<close>), which fails on malformed bytes.
\<close>

record 'img World =
  disk :: "path \<rightharpoonup> byte list"
  write_ok :: "path \<Rightarrow> bool"
  http :: "url \<Rightarrow> http_outcome"
  http_calls :: "url list"
  decode :: "byte list \<Rightarrow> 'img option"

definition StatusOK :: go_int where
  "StatusOK = 200"

section \<open>GetTile and the fetch task\<close>

text \<open>\<^verbatim>\<open>tm.loading[key]\<close>: a missing key of a Go \<^verbatim>\<open>map[K]bool\<close> reads as \<^verbatim>\<open>false\<close>.\<close>

definition is_loading :: "'img TileManager \<Rightarrow> TileCacheKey \<Rightarrow> bool" where
  "is_loading tm key = (case loading tm key of Some b \<Rightarrow> b | None \<Rightarrow> False)"

text \<open>
  \<^verbatim>\<open>GetTile\<close> returns the image or \<^verbatim>\<open>nil\<close>, the manager afterwards, and the
  arguments of the goroutine it starts with \<^verbatim>\<open>go tm.loadTile(coord, source)\<close>, if any.
\<close>

definition GetTile ::
  "'img TileManager \<Rightarrow> TileCoord \<Rightarrow> 'img option \<times> 'img TileManager \<times> (TileCoord \<times> MapSource) option" where
  "GetTile tm coord =
     (let src = GetSource tm; key = (coord, src) in
      case tiles tm key of
        Some tile \<Rightarrow> (Some tile, tm, None)
      | None \<Rightarrow>
          if is_loading tm key then (None, tm, None)
          else (None, tm\<lparr>loading := (loading tm)(key \<mapsto> True)\<rparr>, Some (coord, src)))"

definition loadFromCache :: "'img TileManager \<Rightarrow> 'img World \<Rightarrow> TileCoord \<Rightarrow> MapSource \<Rightarrow> 'img option" where
  "loadFromCache tm w coord src =
     (case disk w (cachePath tm coord src) of
        None \<Rightarrow> None
      | Some bytes \<Rightarrow> decode w bytes)"

definition downloadTile ::
  "'img TileManager \<Rightarrow> 'img World \<Rightarrow> TileCoord \<Rightarrow> MapSource \<Rightarrow> 'img option \<times> 'img World" where
  "downloadTile tm w coord src =
     (let u = tileURL coord src in
      case http w u of
        RequestError \<Rightarrow> (None, w)
      | DoError \<Rightarrow> (None, w\<lparr>http_calls := http_calls w @ [u]\<rparr>)
      | Response status body \<Rightarrow>
          (let w1 = w\<lparr>http_calls := http_calls w @ [u]\<rparr> in
           if status \<noteq> StatusOK then (None, w1)
           else case body of
             ReadError \<Rightarrow> (None, w1)
           | Body bytes \<Rightarrow>
               (let p = cachePath tm coord src;
                    w2 = (if write_ok w1 p then w1\<lparr>disk := (disk w1)(p \<mapsto> bytes)\<rparr> else w1)
                in (decode w2 bytes, w2))))"

text \<open>The two critical sections of \<^verbatim>\<open>loadTile\<close>: publishing an image, and the
  deferred \<^verbatim>\<open>delete(tm.loading, key)\<close>, which runs when the function returns.\<close>

definition publish :: "TileCacheKey \<Rightarrow> 'img \<Rightarrow> 'img TileManager \<Rightarrow> 'img TileManager" where
  "publish key img tm = tm\<lparr>tiles := (tiles tm)(key \<mapsto> img)\<rparr>"

definition deferred_unmark :: "TileCacheKey \<Rightarrow> 'img TileManager \<Rightarrow> 'img TileManager" where
  "deferred_unmark key tm = tm\<lparr>loading := (loading tm)(key := None)\<rparr>"

definition loadTile ::
  "'img TileManager \<Rightarrow> 'img World \<Rightarrow> TileCoord \<Rightarrow> MapSource \<Rightarrow> 'img TileManager \<times> 'img World" where
  "loadTile tm w coord src =
     (let key = (coord, src) in
      case loadFromCache tm w coord src of
        Some img \<Rightarrow> (deferred_unmark key (publish key img tm), w)
      | None \<Rightarrow>
          (case downloadTile tm w coord src of
             (Some img, w') \<Rightarrow> (deferred_unmark key (publish key img tm), w')
           | (None, w') \<Rightarrow> (deferred_unmark key tm, w')))"

section \<open>Goroutines: interleaving the critical sections\<close>

text \<open>
  Every access to \<^verbatim>\<open>tiles\<close>, \<^verbatim>\<open>loading\<close> and \<^verbatim>\<open>source\<close> happens with the mutex held,
  so an execution of several goroutines is an interleaving of their critical
  sections and of the I/O between them. A goroutine is represented by its
  position in the function it runs.

  A caller runs \<^verbatim>\<open>GetTile(coord)\<close>: \<^verbatim>\<open>GetSource()\<close> (read lock), the look-up in
  \<^verbatim>\<open>tiles\<close> and \<^verbatim>\<open>loading\<close> (read lock), the marking (write lock),
  \<^verbatim>\<open>go tm.loadTile(coord, source)\<close>; or it runs \<^verbatim>\<open>ClearCache()\<close> (write lock).
\<close>

datatype 'img caller =
    GT_entry TileCoord
  | GT_lookup TileCoord MapSource
  | GT_mark TileCoord MapSource
  | GT_go TileCoord MapSource
  | GT_return "'img option"
  | CC_entry
  | CC_return

text \<open>
  A fetch task runs \<^verbatim>\<open>loadTile(coord, source)\<close>: \<^verbatim>\<open>loadFromCache\<close>, then
  \<^verbatim>\<open>downloadTile\<close> on a miss, the publication of the image (write lock), and
  last the deferred unmarking (write lock).
\<close>

datatype 'img task =
    LT_entry TileCoord MapSource
  | LT_download TileCoord MapSource
  | LT_publish TileCoord MapSource 'img
  | LT_deferred TileCoord MapSource
  | LT_done

record 'img System =
  manager :: "'img TileManager"
  world :: "'img World"
  callers :: "'img caller list"
  tasks :: "'img task list"

definition step_caller :: "nat \<Rightarrow> 'img System \<Rightarrow> 'img System" where
  "step_caller i s =
     (if i \<ge> length (callers s) then s
      else case callers s ! i of
        GT_entry coord \<Rightarrow>
          s\<lparr>callers := (callers s)[i := GT_lookup coord (GetSource (manager s))]\<rparr>
      | GT_lookup coord src \<Rightarrow>
          (case tiles (manager s) (coord, src) of
             Some tile \<Rightarrow> s\<lparr>callers := (callers s)[i := GT_return (Some tile)]\<rparr>
           | None \<Rightarrow>
               if is_loading (manager s) (coord, src)
               then s\<lparr>callers := (callers s)[i := GT_return None]\<rparr>
               else s\<lparr>callers := (callers s)[i := GT_mark coord src]\<rparr>)
      | GT_mark coord src \<Rightarrow>
          s\<lparr>manager := (manager s)\<lparr>loading := (loading (manager s))((coord, src) \<mapsto> True)\<rparr>,
            callers := (callers s)[i := GT_go coord src]\<rparr>
      | GT_go coord src \<Rightarrow>
          s\<lparr>tasks := tasks s @ [LT_entry coord src],
            callers := (callers s)[i := GT_return None]\<rparr>
      | GT_return r \<Rightarrow> s
      | CC_entry \<Rightarrow>
          s\<lparr>manager := ClearCache (manager s), callers := (callers s)[i := CC_return]\<rparr>
      | CC_return \<Rightarrow> s)"

definition step_task :: "nat \<Rightarrow> 'img System \<Rightarrow> 'img System" where
  "step_task j s =
     (if j \<ge> length (tasks s) then s
      else case tasks s ! j of
        LT_entry coord src \<Rightarrow>
          (case loadFromCache (manager s) (world s) coord src of
             Some img \<Rightarrow> s\<lparr>tasks := (tasks s)[j := LT_publish coord src img]\<rparr>
           | None \<Rightarrow> s\<lparr>tasks := (tasks s)[j := LT_download coord src]\<rparr>)
      | LT_download coord src \<Rightarrow>
          (case downloadTile (manager s) (world s) coord src of
             (Some img, w') \<Rightarrow> s\<lparr>world := w', tasks := (tasks s)[j := LT_publish coord src img]\<rparr>
           | (None, w') \<Rightarrow> s\<lparr>world := w', tasks := (tasks s)[j := LT_deferred coord src]\<rparr>)
      | LT_publish coord src img \<Rightarrow>
          s\<lparr>manager := publish (coord, src) img (manager s),
            tasks := (tasks s)[j := LT_deferred coord src]\<rparr>
      | LT_deferred coord src \<Rightarrow>
          s\<lparr>manager := deferred_unmark (coord, src) (manager s),
            tasks := (tasks s)[j := LT_done]\<rparr>
      | LT_done \<Rightarrow> s)"

datatype pick = Caller nat | Task nat

fun run :: "pick list \<Rightarrow> 'img System \<Rightarrow> 'img System" where
  "run [] s = s"
| "run (Caller i # sched) s = run sched (step_caller i s)"
| "run (Task j # sched) s = run sched (step_task j s)"

text \<open>The key a fetch task is working on, while it is outstanding.\<close>

fun task_key :: "'img task \<Rightarrow> TileCacheKey option" where
  "task_key (LT_entry coord src) = Some (coord, src)"
| "task_key (LT_download coord src) = Some (coord, src)"
| "task_key (LT_publish coord src img) = Some (coord, src)"
| "task_key (LT_deferred coord src) = Some (coord, src)"
| "task_key LT_done = None"

definition outstanding :: "'img System \<Rightarrow> TileCacheKey \<Rightarrow> nat" where
  "outstanding s key = length (filter (\<lambda>t. task_key t = Some key) (tasks s))"

section \<open>ByteReader\<close>

text \<open>
  \<^verbatim>\<open>ByteReader\<close> wraps a byte slice and a read position. The position starts at 0
  (\<^verbatim>\<open>NewByteReader\<close>) and only \<^verbatim>\<open>Read\<close> changes it, by adding a count of copied
  bytes, so it is a natural number. Go's \<^verbatim>\<open>copy(p, r.data[r.pos:])\<close> overwrites the
  first \<open>n = min (len p) (len data - pos)\<close> bytes of \<open>p\<close> and returns \<open>n\<close>.
\<close>

record ByteReader =
  data :: "byte list"
  pos :: nat

datatype io_error = EOF

definition NewByteReader :: "byte list \<Rightarrow> ByteReader" where
  "NewByteReader d = \<lparr>data = d, pos = 0\<rparr>"

text \<open>\<^verbatim>\<open>Read\<close> returns \<open>(n, err, p', r')\<close>: count, error, the buffer and the reader afterwards.\<close>

definition Read :: "ByteReader \<Rightarrow> byte list \<Rightarrow> nat \<times> io_error option \<times> byte list \<times> ByteReader" where
  "Read r p =
     (if pos r \<ge> length (data r) then (0, Some EOF, p, r)
      else let n = min (length p) (length (data r) - pos r);
               p' = take n (drop (pos r) (data r)) @ drop n p
           in (n, None, p', r\<lparr>pos := pos r + n\<rparr>))"

text \<open>
  A client that calls \<^verbatim>\<open>Read\<close> once with each buffer of a list, in turn, collecting
  the \<open>n\<close> bytes every call delivered, until a call reports \<^verbatim>\<open>io.EOF\<close>. It returns
  the bytes collected and whether \<^verbatim>\<open>io.EOF\<close> was seen.
\<close>

fun read_repeatedly :: "ByteReader \<Rightarrow> byte list list \<Rightarrow> byte list \<times> bool" where
  "read_repeatedly r [] = ([], False)"
| "read_repeatedly r (p # ps) =
     (case Read r p of (n, err, p', r') \<Rightarrow>
        if err = Some EOF then ([], True)
        else (case read_repeatedly r' ps of (out, eof) \<Rightarrow> (take n p' @ out, eof)))"

section \<open>Tiles for a view\<close>

text \<open>
  Go's integer division and remainder truncate towards zero; the results wrap
  into 64 bits. A shift by a negative count and a division by zero panic.
\<close>

datatype panic = NegativeShift | DivideByZero

definition go_div :: "go_int \<Rightarrow> go_int \<Rightarrow> go_int" where
  "go_div a b = word_of_int (sint a sdiv sint b)"

definition go_mod :: "go_int \<Rightarrow> go_int \<Rightarrow> go_int" where
  "go_mod a b = word_of_int (sint a smod sint b)"

text \<open>
  The loop \<^verbatim>\<open>for i := lo; i <= hi; i++ { body }\<close>, threading an accumulator. The
  counter is a machine integer, so the loop would not end for \<open>hi\<close> the largest
  \<^verbatim>\<open>int\<close>: \<open>None\<close> stands for a loop that never returns, \<open>Some (Inl p)\<close> for
  a panic in the body.
\<close>

partial_function (option) for_loop ::
  "go_int \<Rightarrow> go_int \<Rightarrow> (go_int \<Rightarrow> 'a \<Rightarrow> (panic + 'a) option) \<Rightarrow> 'a \<Rightarrow> (panic + 'a) option" where
  "for_loop i hi body acc =
     (if i \<le>s hi then
        (case body i acc of
           None \<Rightarrow> None
         | Some (Inl e) \<Rightarrow> Some (Inl e)
         | Some (Inr acc') \<Rightarrow> for_loop (i + 1) hi body acc')
      else Some (Inr acc))"

text \<open>
  The body of the inner loop of \<^verbatim>\<open>GetTilesForView\<close>, for the offsets \<open>dx\<close> and \<open>dy\<close>:
  \<^verbatim>\<open>n := 1 << zoom\<close>, the X index wrapped by \<^verbatim>\<open>((x % n) + n) % n\<close>, tiles with
  \<^verbatim>\<open>y < 0 || y >= n\<close> skipped, the others appended.
\<close>

definition view_body ::
  "go_int \<Rightarrow> go_int \<Rightarrow> go_int \<Rightarrow> go_int \<Rightarrow> go_int \<Rightarrow> TileCoord list \<Rightarrow> (panic + TileCoord list) option" where
  "view_body centerX centerY zoom dx dy coords =
     (let x = centerX + dx; y = centerY + dy in
      if zoom <s 0 then Some (Inl NegativeShift)
      else let n = push_bit (unat zoom) (1 :: go_int) in
        if n = 0 then Some (Inl DivideByZero)
        else let x = go_mod (go_mod x n + n) n in
          if y <s 0 \<or> n \<le>s y then Some (Inr coords)
          else Some (Inr (coords @ [\<lparr>X = x, Y = y, Z = zoom\<rparr>])))"

text \<open>
  \<^verbatim>\<open>GetTilesForView\<close>. \<^verbatim>\<open>LatLonToTile\<close> computes the centre tile in floating point
  (\<^verbatim>\<open>math.Pow\<close>, \<^verbatim>\<open>math.Tan\<close>, \<^verbatim>\<open>math.Asinh\<close>, conversion to \<^verbatim>\<open>int\<close>); it is a parameter
  here, so that what is proved holds whatever pair of integers it returns. The
  receiver is not used by the method.
\<close>

definition GetTilesForView ::
  "('f \<Rightarrow> 'f \<Rightarrow> go_int \<Rightarrow> go_int \<times> go_int) \<Rightarrow> 'f \<Rightarrow> 'f \<Rightarrow> go_int \<Rightarrow> go_int \<Rightarrow> go_int
     \<Rightarrow> (panic + TileCoord list) option" where
  "GetTilesForView LatLonToTile centerLat centerLon zoom screenW screenH =
     (case LatLonToTile centerLat centerLon zoom of (centerX, centerY) \<Rightarrow>
        let tilesX = go_div screenW TileSize + 2;
            tilesY = go_div screenH TileSize + 2
        in for_loop (go_div (- tilesX) 2) (go_div tilesX 2)
             (\<lambda>dx. for_loop (go_div (- tilesY) 2) (go_div tilesY 2)
                (\<lambda>dy. view_body centerX centerY zoom dx dy))
             [])"

text \<open>
  For the proofs: the same loop over the list of its counter values; the values
  \<^verbatim>\<open>-t/2 .. t/2\<close> of a counter; what one iteration appends when the zoom is between
  0 and 62; and the grid of valid tile indices at a zoom.
\<close>

fun fold_body :: "('i \<Rightarrow> 'a \<Rightarrow> (panic + 'a) option) \<Rightarrow> 'i list \<Rightarrow> 'a \<Rightarrow> (panic + 'a) option" where
  "fold_body body [] acc = Some (Inr acc)"
| "fold_body body (i # is) acc =
     (case body i acc of
        None \<Rightarrow> None
      | Some (Inl e) \<Rightarrow> Some (Inl e)
      | Some (Inr acc') \<Rightarrow> fold_body body is acc')"

definition span :: "go_int \<Rightarrow> go_int list" where
  "span tilesN = map word_of_int [sint (go_div (- tilesN) 2)..sint (go_div tilesN 2)]"

definition tile_at :: "go_int \<Rightarrow> go_int \<Rightarrow> go_int \<Rightarrow> go_int \<Rightarrow> go_int \<Rightarrow> TileCoord list" where
  "tile_at cx cy zoom dx dy =
     (if 0 \<le> sint (cy + dy) \<and> sint (cy + dy) < 2 ^ nat (sint zoom)
      then [\<lparr>X = word_of_int (sint (cx + dx) mod 2 ^ nat (sint zoom)), Y = cy + dy, Z = zoom\<rparr>]
      else [])"

definition in_grid :: "go_int \<Rightarrow> TileCoord \<Rightarrow> bool" where
  "in_grid zoom c \<longleftrightarrow>
     0 \<le> sint (X c) \<and> sint (X c) < 2 ^ nat (sint zoom)
     \<and> 0 \<le> sint (Y c) \<and> sint (Y c) < 2 ^ nat (sint zoom) \<and> Z c = zoom"

text \<open>
  The reach the code computes from a viewport dimension,
  \<^verbatim>\<open>(screen / TileSize + 2) / 2\<close> with Go's truncating division: the loop counters
  run from minus the reach to the reach. What one pair of offsets \<open>(dx, dy)\<close>
  contributes around a centre tile \<open>(cx, cy)\<close>: the tile with X the column
  \<open>cx + dx\<close> modulo \<open>2 ^ zoom\<close> and Y the row \<open>cy + dy\<close> (a 64-bit sum), or
  nothing when the row is outside \<open>[0, 2 ^ zoom)\<close>; and the tiles of all offsets
  \<open>dx = -hx..hx\<close>, \<open>dy = -hy..hy\<close>, column by column.
\<close>

definition half_span :: "go_int \<Rightarrow> int" where
  "half_span screen = (sint screen sdiv 256 + 2) sdiv 2"

definition offset_tile :: "go_int \<Rightarrow> go_int \<Rightarrow> go_int \<Rightarrow> int \<Rightarrow> int \<Rightarrow> TileCoord list" where
  "offset_tile cx cy zoom dx dy =
     (if 0 \<le> sint (cy + word_of_int dy) \<and> sint (cy + word_of_int dy) < 2 ^ nat (sint zoom)
      then [\<lparr>X = word_of_int ((sint cx + dx) mod 2 ^ nat (sint zoom)), Y = cy + word_of_int dy, Z = zoom\<rparr>]
      else [])"

definition view_tiles :: "go_int \<Rightarrow> go_int \<Rightarrow> go_int \<Rightarrow> int \<Rightarrow> int \<Rightarrow> TileCoord list" where
  "view_tiles cx cy zoom hx hy =
     concat (map (\<lambda>dx. concat (map (\<lambda>dy. offset_tile cx cy zoom dx dy) [- hy..hy])) [- hx..hx])"

text \<open>
  The full block of tiles around a centre tile \<open>(cx, cy)\<close>, \<open>2 * hx + 1\<close> columns
  by \<open>2 * hy + 1\<close> rows, with X wrapped modulo \<open>2 ^ zoom\<close> and no row dropped.
\<close>

definition grid_tile :: "go_int \<Rightarrow> int \<Rightarrow> int \<Rightarrow> TileCoord" where
  "grid_tile zoom x y = \<lparr>X = word_of_int (x mod 2 ^ nat (sint zoom)), Y = word_of_int y, Z = zoom\<rparr>"

definition view_block :: "go_int \<Rightarrow> go_int \<Rightarrow> go_int \<Rightarrow> int \<Rightarrow> int \<Rightarrow> TileCoord list" where
  "view_block cx cy zoom hx hy =
     concat (map (\<lambda>dx. map (\<lambda>dy. grid_tile zoom (sint cx + dx) (sint cy + dy)) [- hy..hy]) [- hx..hx])"

text \<open>
  The number of tiles per axis as the specification words it:
  \<open>ceil (viewport / TileSize) + 2\<close>.
\<close>

definition spec_tiles_per_axis :: "int \<Rightarrow> int" where
  "spec_tiles_per_axis viewport = - ((- viewport) div 256) + 2"

text \<open>
  A projection that answers a fixed centre tile, and the tiles around tile
  (12100, 18526) at zoom 15, which contains latitude -22.9064, longitude -47.0616.
\<close>

definition center_at :: "go_int \<Rightarrow> go_int \<Rightarrow> 'f \<Rightarrow> 'f \<Rightarrow> go_int \<Rightarrow> go_int \<times> go_int" where
  "center_at cx cy lat lon zoom = (cx, cy)"

definition campinas_block :: "TileCoord list" where
  "campinas_block =
     [\<lparr>X = 12098, Y = 18525, Z = 15\<rparr>, \<lparr>X = 12098, Y = 18526, Z = 15\<rparr>, \<lparr>X = 12098, Y = 18527, Z = 15\<rparr>,
      \<lparr>X = 12099, Y = 18525, Z = 15\<rparr>, \<lparr>X = 12099, Y = 18526, Z = 15\<rparr>, \<lparr>X = 12099, Y = 18527, Z = 15\<rparr>,
      \<lparr>X = 12100, Y = 18525, Z = 15\<rparr>, \<lparr>X = 12100, Y = 18526, Z = 15\<rparr>, \<lparr>X = 12100, Y = 18527, Z = 15\<rparr>,
      \<lparr>X = 12101, Y = 18525, Z = 15\<rparr>, \<lparr>X = 12101, Y = 18526, Z = 15\<rparr>, \<lparr>X = 12101, Y = 18527, Z = 15\<rparr>,
      \<lparr>X = 12102, Y = 18525, Z = 15\<rparr>, \<lparr>X = 12102, Y = 18526, Z = 15\<rparr>, \<lparr>X = 12102, Y = 18527, Z = 15\<rparr>]"

section \<open>Fetch failure, and concrete states for the examples\<close>


text \<open>
  A tile coordinate, a fresh manager, a world whose disk cache holds a decodable
  file for that tile and whose server is unreachable, and a system of callers.
\<close>

definition c0 :: TileCoord where
  "c0 = \<lparr>X = 1, Y = 2, Z = 3\<rparr>"

definition example_tm :: "(byte list) TileManager" where
  "example_tm = NewTileManager ''tiles''"

definition server_down :: "url \<Rightarrow> http_outcome" where
  "server_down u = DoError"

definition example_world :: "(byte list) World" where
  "example_world =
     \<lparr>disk = [cachePath example_tm c0 MapSourceSatellite \<mapsto> [1, 2, 3]],
      write_ok = (\<lambda>p. True), http = server_down, http_calls = [], decode = Some\<rparr>"

definition example_system :: "(byte list) caller list \<Rightarrow> (byte list) System" where
  "example_system cs = \<lparr>manager = example_tm, world = example_world, callers = cs, tasks = []\<rparr>"

section \<open>Source switching keeps the tiles\<close>

text \<open>
  C9. Switching the map source with \<^verbatim>\<open>SetSource\<close> or \<^verbatim>\<open>ToggleSource\<close> leaves the
  in-memory tiles map (and the in-flight map) exactly as it was: the entries of
  both sources stay in the one map, under keys that differ only in their source
  component, and only the \<^verbatim>\<open>source\<close> field changes.
\<close>

theorem source_switch_keeps_tiles:
  "tiles (SetSource tm src) = tiles tm
   \<and> loading (SetSource tm src) = loading tm
   \<and> source (SetSource tm src) = src
   \<and> tiles (snd (ToggleSource tm)) = tiles tm
   \<and> loading (snd (ToggleSource tm)) = loading tm
   \<and> source (snd (ToggleSource tm)) \<noteq> source tm
   \<and> fst (ToggleSource tm) = source (snd (ToggleSource tm))"
  by (simp add: SetSource_def ToggleSource_def Let_def)

section \<open>ByteReader delivers its bytes, then EOF\<close>

lemma Read_at_end:
  "length (data r) \<le> pos r \<Longrightarrow> Read r p = (0, Some EOF, p, r)"
  by (simp add: Read_def)

lemma read_repeatedly_step:
  assumes "pos r < length (data r)"
  shows "read_repeatedly r (p # ps) =
      (take (min (length p) (length (data r) - pos r)) (drop (pos r) (data r))
         @ fst (read_repeatedly (r\<lparr>pos := pos r + min (length p) (length (data r) - pos r)\<rparr>) ps),
       snd (read_repeatedly (r\<lparr>pos := pos r + min (length p) (length (data r) - pos r)\<rparr>) ps))"
proof -
  define n where "n = min (length p) (length (data r) - pos r)"
  have "n \<le> length (drop (pos r) (data r))" by (simp add: n_def)
  then have "take n (take n (drop (pos r) (data r)) @ drop n p) = take n (drop (pos r) (data r))"
    by simp
  then show ?thesis
    using assms by (simp add: Read_def Let_def n_def [symmetric] split: prod.splits)
qed

lemma read_repeatedly_prefix:
  "pos r \<le> length (data r) \<Longrightarrow>
   \<exists>k. fst (read_repeatedly r ps) = take k (drop (pos r) (data r))
       \<and> (snd (read_repeatedly r ps) \<longrightarrow> fst (read_repeatedly r ps) = drop (pos r) (data r))"
proof (induction ps arbitrary: r)
  case Nil
  have "fst (read_repeatedly r []) = take 0 (drop (pos r) (data r))" by simp
  then show ?case by auto
next
  case (Cons p ps)
  show ?case
  proof (cases "length (data r) \<le> pos r")
    case True
    then show ?thesis by (simp add: Read_def)
  next
    case False
    define n where "n = min (length p) (length (data r) - pos r)"
    define r' where "r' = r\<lparr>pos := pos r + n\<rparr>"
    define rest where "rest = drop (pos r) (data r)"
    have r': "pos r' \<le> length (data r')" "drop (pos r') (data r') = drop n rest"
      using False by (auto simp: r'_def n_def rest_def add.commute)
    from Cons.IH [OF r'(1)] obtain k where
      k: "fst (read_repeatedly r' ps) = take k (drop n rest)"
         "snd (read_repeatedly r' ps) \<longrightarrow> fst (read_repeatedly r' ps) = drop n rest"
      unfolding r'(2) by blast
    have step: "read_repeatedly r (p # ps) =
        (take n rest @ fst (read_repeatedly r' ps), snd (read_repeatedly r' ps))"
      using False read_repeatedly_step [of r p ps] by (simp add: n_def r'_def rest_def)
    have "fst (read_repeatedly r (p # ps)) = take (n + k) rest"
      by (simp add: step k(1) take_add del: read_repeatedly.simps)
    moreover have "snd (read_repeatedly r (p # ps)) \<longrightarrow> fst (read_repeatedly r (p # ps)) = rest"
      using k(2) by (simp add: step del: read_repeatedly.simps)
    ultimately show ?thesis unfolding rest_def by blast
  qed
qed

lemma read_repeatedly_all:
  "pos r \<le> length (data r) \<Longrightarrow> \<forall>p \<in> set ps. p \<noteq> [] \<Longrightarrow>
   length (data r) - pos r < length ps \<Longrightarrow>
   read_repeatedly r ps = (drop (pos r) (data r), True)"
proof (induction ps arbitrary: r)
  case Nil
  then show ?case by simp
next
  case (Cons p ps)
  show ?case
  proof (cases "length (data r) \<le> pos r")
    case True
    then show ?thesis using Cons.prems(1) by (simp add: Read_def)
  next
    case False
    define n where "n = min (length p) (length (data r) - pos r)"
    define r' where "r' = r\<lparr>pos := pos r + n\<rparr>"
    define rest where "rest = drop (pos r) (data r)"
    have "p \<noteq> []" using Cons.prems(2) by simp
    then have n: "0 < n" "n \<le> length (data r) - pos r"
      using False by (auto simp: n_def)
    have r': "pos r' \<le> length (data r')" "drop (pos r') (data r') = drop n rest"
      using False n by (auto simp: r'_def rest_def add.commute)
    have "length (data r') - pos r' < length ps"
      using Cons.prems(3) n by (simp add: r'_def)
    moreover have "\<forall>p \<in> set ps. p \<noteq> []" using Cons.prems(2) by simp
    ultimately have IH: "read_repeatedly r' ps = (drop n rest, True)"
      using Cons.IH [OF r'(1)] unfolding r'(2) by blast
    have "read_repeatedly r (p # ps) =
        (take n rest @ fst (read_repeatedly r' ps), snd (read_repeatedly r' ps))"
      using False read_repeatedly_step [of r p ps] by (simp add: n_def r'_def rest_def)
    then have "read_repeatedly r (p # ps) = (take n rest @ drop n rest, True)"
      by (simp add: IH del: read_repeatedly.simps)
    then show ?thesis unfolding rest_def by (simp only: append_take_drop_id)
  qed
qed

text \<open>
  C10. For every byte slice \<open>d\<close>: calling \<^verbatim>\<open>Read\<close> again and again on a fresh
  \<^verbatim>\<open>ByteReader\<close> over \<open>d\<close>, with non-empty buffers of any sizes, delivers a prefix
  of \<open>d\<close> in order; once \<^verbatim>\<open>io.EOF\<close> is reported the bytes delivered are exactly \<open>d\<close>;
  and more than \<open>length d\<close> calls always suffice to deliver all of \<open>d\<close> and reach
  \<^verbatim>\<open>io.EOF\<close>. A \<^verbatim>\<open>Read\<close> at or past the end copies nothing, returns count 0 and
  \<^verbatim>\<open>io.EOF\<close>, and leaves buffer and reader unchanged.
\<close>

theorem ByteReader_reads_data_then_EOF:
  "(\<exists>k. fst (read_repeatedly (NewByteReader d) ps) = take k d)
   \<and> (snd (read_repeatedly (NewByteReader d) ps) \<longrightarrow>
        fst (read_repeatedly (NewByteReader d) ps) = d)
   \<and> ((\<forall>p \<in> set ps. p \<noteq> []) \<and> length d < length ps \<longrightarrow>
        read_repeatedly (NewByteReader d) ps = (d, True))
   \<and> (length (data r) \<le> pos r \<longrightarrow> Read r p = (0, Some EOF, p, r))"
proof -
  have p0: "pos (NewByteReader d) \<le> length (data (NewByteReader d))"
    by (simp add: NewByteReader_def)
  have "\<exists>k. fst (read_repeatedly (NewByteReader d) ps) = take k d
       \<and> (snd (read_repeatedly (NewByteReader d) ps) \<longrightarrow>
            fst (read_repeatedly (NewByteReader d) ps) = d)"
    using read_repeatedly_prefix [OF p0, of ps] by (simp add: NewByteReader_def)
  moreover have "(\<forall>p \<in> set ps. p \<noteq> []) \<and> length d < length ps \<longrightarrow>
        read_repeatedly (NewByteReader d) ps = (d, True)"
    using read_repeatedly_all [OF p0, of ps] by (simp add: NewByteReader_def)
  ultimately show ?thesis using Read_at_end by blast
qed

theorem ByteReader_reads_data_then_EOF_witness:
  "read_repeatedly (NewByteReader [1, 2, 3]) [[0, 0], [0, 0], [0], [0]] = ([1, 2, 3], True)
   \<and> Read \<lparr>data = [1, 2, 3], pos = 3\<rparr> [9, 9] = (0, Some EOF, [9, 9], \<lparr>data = [1, 2, 3], pos = 3\<rparr>)"
  using ByteReader_reads_data_then_EOF [of "[1, 2, 3]" "[[0, 0], [0, 0], [0], [0]]"
      "\<lparr>data = [1, 2, 3], pos = 3\<rparr>" "[9, 9]"]
  by simp

section \<open>GetTile\<close>

lemma step_caller_world: "world (step_caller i s) = world s"
  by (simp add: step_caller_def split: caller.splits option.splits)

lemma GetTile_as_steps:
  "GetTile (manager s) coord = (r, tm', sp) \<Longrightarrow> i < length (callers s) \<Longrightarrow>
   callers s ! i = GT_entry coord \<Longrightarrow>
   (let s' = run (replicate 4 (Caller i)) s in
      manager s' = tm' \<and> callers s' = (callers s)[i := GT_return r]
      \<and> tasks s' = tasks s @ (case sp of None \<Rightarrow> [] | Some (c, src) \<Rightarrow> [LT_entry c src])
      \<and> world s' = world s)"
  by (auto simp: GetTile_def step_caller_def Let_def numeral_eq_Suc split: option.splits if_splits)

lemma loadTile_as_steps:
  "j < length (tasks s) \<Longrightarrow> tasks s ! j = LT_entry coord src \<Longrightarrow>
   (let s' = run (replicate 4 (Task j)) s in
      (manager s', world s') = loadTile (manager s) (world s) coord src
      \<and> tasks s' = (tasks s)[j := LT_done] \<and> callers s' = callers s)"
  by (auto simp: loadTile_def step_task_def Let_def numeral_eq_Suc downloadTile_def
      split: option.splits prod.splits http_outcome.splits read_outcome.splits if_splits)

text \<open>
  C1. \<^verbatim>\<open>GetTile\<close> has three outcomes. If a tile is resident under the key
  (coord, current source) it is returned and nothing changes. If the key is
  marked in-flight, \<^verbatim>\<open>nil\<close> is returned, nothing changes and no goroutine is
  started. Otherwise the key is marked in-flight, one goroutine
  \<^verbatim>\<open>loadTile(coord, source)\<close> is started and \<^verbatim>\<open>nil\<close> is returned. In no case are
  the tiles or the source changed, and no step of a caller touches the world
  (disk, network): all I/O is left to the fetch task.
\<close>

theorem GetTile_three_way:
  "(tiles tm (coord, source tm) = Some tile \<longrightarrow> GetTile tm coord = (Some tile, tm, None))
   \<and> (tiles tm (coord, source tm) = None \<and> is_loading tm (coord, source tm) \<longrightarrow>
        GetTile tm coord = (None, tm, None))
   \<and> (tiles tm (coord, source tm) = None \<and> \<not> is_loading tm (coord, source tm) \<longrightarrow>
        GetTile tm coord =
          (None, tm\<lparr>loading := (loading tm)((coord, source tm) \<mapsto> True)\<rparr>, Some (coord, source tm))
        \<and> is_loading (fst (snd (GetTile tm coord))) (coord, source tm))
   \<and> tiles (fst (snd (GetTile tm coord))) = tiles tm
   \<and> source (fst (snd (GetTile tm coord))) = source tm
   \<and> world (step_caller i s) = world s"
  by (simp add: GetTile_def GetSource_def is_loading_def step_caller_world Let_def split: option.splits)

theorem GetTile_three_way_witness:
  "GetTile (example_tm\<lparr>tiles := [(c0, MapSourceSatellite) \<mapsto> [7]]\<rparr>) c0
     = (Some [7], example_tm\<lparr>tiles := [(c0, MapSourceSatellite) \<mapsto> [7]]\<rparr>, None)
   \<and> GetTile (example_tm\<lparr>loading := [(c0, MapSourceSatellite) \<mapsto> True]\<rparr>) c0
     = (None, example_tm\<lparr>loading := [(c0, MapSourceSatellite) \<mapsto> True]\<rparr>, None)
   \<and> GetTile example_tm c0
     = (None, example_tm\<lparr>loading := [(c0, MapSourceSatellite) \<mapsto> True]\<rparr>, Some (c0, MapSourceSatellite))"
  using GetTile_three_way [where tm = "example_tm\<lparr>tiles := [(c0, MapSourceSatellite) \<mapsto> [7]]\<rparr>"
      and coord = c0 and tile = "[7]" and i = 0 and s = "example_system []"]
    GetTile_three_way [where tm = "example_tm\<lparr>loading := [(c0, MapSourceSatellite) \<mapsto> True]\<rparr>"
      and coord = c0 and i = 0 and s = "example_system []"]
    GetTile_three_way [where tm = example_tm and coord = c0 and i = 0 and s = "example_system []"]
  by (simp add: example_tm_def NewTileManager_def is_loading_def)

section \<open>The fetch task\<close>

lemma downloadTile_decode: "decode (snd (downloadTile tm w coord src)) = decode w"
  by (simp add: downloadTile_def Let_def split: http_outcome.splits read_outcome.splits)



text \<open>
  C6. The fetch is disk-first: when the file at the key's cache path opens and
  decodes, \<^verbatim>\<open>loadTile\<close> publishes the decoded image under the key, clears the
  in-flight marker and returns with the world unchanged; in particular no HTTP
  request has been sent.
\<close>

theorem disk_hit_no_network:
  assumes "disk w (cachePath tm coord src) = Some bytes" and "decode w bytes = Some img"
  shows "loadTile tm w coord src = (deferred_unmark (coord, src) (publish (coord, src) img tm), w)
     \<and> tiles (fst (loadTile tm w coord src)) = (tiles tm)((coord, src) \<mapsto> img)
     \<and> \<not> is_loading (fst (loadTile tm w coord src)) (coord, src)
     \<and> http_calls (snd (loadTile tm w coord src)) = http_calls w"
  using assms
  by (simp add: loadTile_def loadFromCache_def Let_def publish_def deferred_unmark_def is_loading_def)

theorem disk_hit_no_network_witness:
  "disk example_world (cachePath example_tm c0 MapSourceSatellite) = Some [1, 2, 3]
   \<and> decode example_world [1, 2, 3] = Some [1, 2, 3]
   \<and> tiles (fst (loadTile example_tm example_world c0 MapSourceSatellite))
        = [(c0, MapSourceSatellite) \<mapsto> [1, 2, 3]]
   \<and> http_calls (snd (loadTile example_tm example_world c0 MapSourceSatellite)) = []"
proof -
  have d: "disk example_world (cachePath example_tm c0 MapSourceSatellite) = Some [1, 2, 3]"
    by (simp add: example_world_def)
  have e: "decode example_world [1, 2, 3] = Some [1, 2, 3]"
    by (simp add: example_world_def)
  have t: "tiles example_tm = Map.empty"
    by (simp add: example_tm_def NewTileManager_def)
  have h: "http_calls example_world = []"
    by (simp add: example_world_def)
  from disk_hit_no_network [OF d e]
  have "tiles (fst (loadTile example_tm example_world c0 MapSourceSatellite))
          = (tiles example_tm)((c0, MapSourceSatellite) \<mapsto> [1, 2, 3])"
    and "http_calls (snd (loadTile example_tm example_world c0 MapSourceSatellite))
          = http_calls example_world"
    by blast+
  then show ?thesis
    using d e by (simp only: t h simp_thms)
qed



section \<open>ClearCache\<close>

text \<open>
  C8, as the code has it. \<^verbatim>\<open>ClearCache\<close> empties the tiles map and changes nothing
  else: source, in-flight map and cache directory are as before, and the step
  touches neither the world (the disk cache) nor the fetch tasks. After it,
  \<^verbatim>\<open>GetTile\<close> for any coordinate returns \<^verbatim>\<open>nil\<close>; it marks the key and starts a
  fetch when the key is not marked in-flight, and starts nothing when a fetch task
  for the key has not yet cleared its marker.
\<close>

theorem ClearCache_only_tiles:
  "tiles (ClearCache tm) = Map.empty
   \<and> source (ClearCache tm) = source tm
   \<and> loading (ClearCache tm) = loading tm
   \<and> cacheDir (ClearCache tm) = cacheDir tm
   \<and> (callers s ! i = CC_entry \<longrightarrow> world (step_caller i s) = world s \<and> tasks (step_caller i s) = tasks s)
   \<and> fst (GetTile (ClearCache tm) coord) = None
   \<and> (\<not> is_loading tm (coord, source tm) \<longrightarrow>
        GetTile (ClearCache tm) coord =
          (None, (ClearCache tm)\<lparr>loading := (loading tm)((coord, source tm) \<mapsto> True)\<rparr>,
           Some (coord, source tm)))
   \<and> (is_loading tm (coord, source tm) \<longrightarrow>
        GetTile (ClearCache tm) coord = (None, ClearCache tm, None))"
  by (simp add: ClearCache_def GetTile_def GetSource_def is_loading_def step_caller_def Let_def)

theorem ClearCache_only_tiles_witness:
  "GetTile (ClearCache (example_tm\<lparr>tiles := [(c0, MapSourceSatellite) \<mapsto> [7]]\<rparr>)) c0
     = (None, example_tm\<lparr>loading := [(c0, MapSourceSatellite) \<mapsto> True]\<rparr>, Some (c0, MapSourceSatellite))
   \<and> GetTile (ClearCache (example_tm\<lparr>tiles := [(c0, MapSourceSatellite) \<mapsto> [7]],
                                         loading := [(c0, MapSourceSatellite) \<mapsto> True]\<rparr>)) c0
     = (None, example_tm\<lparr>loading := [(c0, MapSourceSatellite) \<mapsto> True]\<rparr>, None)
   \<and> world (step_caller 0 (example_system [CC_entry])) = example_world"
  using ClearCache_only_tiles [where tm = "example_tm\<lparr>tiles := [(c0, MapSourceSatellite) \<mapsto> [7]]\<rparr>"
      and coord = c0 and i = 0 and s = "example_system [CC_entry]"]
    ClearCache_only_tiles [where tm = "example_tm\<lparr>tiles := [(c0, MapSourceSatellite) \<mapsto> [7]],
                                         loading := [(c0, MapSourceSatellite) \<mapsto> True]\<rparr>"
      and coord = c0 and i = 0 and s = "example_system [CC_entry]"]
  by (simp add: example_tm_def NewTileManager_def is_loading_def ClearCache_def example_system_def)

text \<open>
  The claim as stated fails in the window between the publication by a fetch
  task and its deferred unmarking. One caller runs \<^verbatim>\<open>GetTile\<close>, the task it started
  reads the tile from disk and publishes it; the key is now cached and still
  marked. Then \<^verbatim>\<open>ClearCache\<close> runs, and \<^verbatim>\<open>GetTile\<close> again: it returns \<^verbatim>\<open>nil\<close> and the
  only task is the old one, about to unmark; no fetch has been started again.
\<close>

theorem ClearCache_GetTile_in_flight_counterexample:
  "tiles (manager (run [Caller 0, Caller 0, Caller 0, Caller 0, Task 0, Task 0]
        (example_system [GT_entry c0, CC_entry, GT_entry c0]))) (c0, MapSourceSatellite) = Some [1, 2, 3]
   \<and> callers (run [Caller 0, Caller 0, Caller 0, Caller 0, Task 0, Task 0, Caller 1, Caller 2, Caller 2, Caller 2, Caller 2]
        (example_system [GT_entry c0, CC_entry, GT_entry c0]))
       = [GT_return None, CC_return, GT_return None]
   \<and> tasks (run [Caller 0, Caller 0, Caller 0, Caller 0, Task 0, Task 0, Caller 1, Caller 2, Caller 2, Caller 2, Caller 2]
        (example_system [GT_entry c0, CC_entry, GT_entry c0]))
       = [LT_deferred c0 MapSourceSatellite]"
  by (simp add: example_system_def example_tm_def NewTileManager_def example_world_def
      step_caller_def step_task_def GetSource_def is_loading_def loadFromCache_def cachePath_def
      publish_def ClearCache_def)

section \<open>Two concurrent callers of GetTile\<close>

text \<open>
  Called one after the other, two calls of \<^verbatim>\<open>GetTile\<close> for a coordinate start one
  fetch: the second call finds the marker the first has set.
\<close>

lemma GetTile_second_call:
  "GetTile tm coord = (r, tm', Some sp) \<Longrightarrow> GetTile tm' coord = (None, tm', None)"
  by (auto simp: GetTile_def GetSource_def is_loading_def Let_def split: option.splits if_splits)

text \<open>
  C2. \<^verbatim>\<open>GetTile\<close> releases the read lock after finding the key neither cached nor
  in-flight, and takes the write lock afterwards to mark it, without looking
  again. Two goroutines calling \<^verbatim>\<open>GetTile\<close> with the same coordinate on a fresh
  manager can both pass the look-up before either has marked the key; both then
  mark it and both start \<^verbatim>\<open>loadTile\<close>: two fetch tasks are outstanding for one key.
\<close>

theorem GetTile_race_two_fetches:
  "tasks (run [Caller 0, Caller 0, Caller 1, Caller 1, Caller 0, Caller 0, Caller 1, Caller 1]
        (example_system [GT_entry c0, GT_entry c0]))
     = [LT_entry c0 MapSourceSatellite, LT_entry c0 MapSourceSatellite]
   \<and> outstanding (run [Caller 0, Caller 0, Caller 1, Caller 1, Caller 0, Caller 0, Caller 1, Caller 1]
        (example_system [GT_entry c0, GT_entry c0])) (c0, MapSourceSatellite) = 2"
  by (simp add: example_system_def example_tm_def NewTileManager_def
      step_caller_def GetSource_def is_loading_def outstanding_def)

section \<open>Machine arithmetic\<close>

lemma sint_word_of_int_self:
  "- (2 ^ 63) \<le> k \<Longrightarrow> k < 2 ^ 63 \<Longrightarrow> sint (word_of_int k :: go_int) = k"
  by (simp add: sint_sbintrunc' signed_take_bit_int_eq_self)

lemma word_of_sint: "word_of_int (sint w) = (w :: go_int)"
  by simp

lemma sint_range: "- (2 ^ 63) \<le> sint (i :: go_int)" "sint (i :: go_int) < 2 ^ 63"
  using sint_ge [of i] sint_lt [of i] by simp_all

lemma sint_plus:
  "- (2 ^ 63) \<le> sint a + sint b \<Longrightarrow> sint a + sint b < 2 ^ 63 \<Longrightarrow>
   sint (a + b :: go_int) = sint a + sint b"
  by (simp add: sint_word_ariths signed_take_bit_int_eq_self)

lemma sint_succ: "sint (i :: go_int) < 2 ^ 63 - 1 \<Longrightarrow> sint (i + 1) = sint i + 1"
  using sint_plus [of i 1] sint_range [of i] by simp

lemma for_loop_fold:
  "sint hi < 2 ^ 63 - 1 \<Longrightarrow>
   for_loop i hi body acc = fold_body body (map word_of_int [sint i..sint hi]) acc"
proof (induction "nat (sint hi - sint i + 1)" arbitrary: i acc)
  case 0
  then have "\<not> i \<le>s hi" by (simp add: word_sle_eq)
  moreover have "[sint i..sint hi] = []" using 0 by simp
  ultimately show ?case by (simp add: for_loop.simps)
next
  case (Suc k)
  then have le: "i \<le>s hi" "sint i \<le> sint hi" by (simp_all add: word_sle_eq)
  have s: "sint (i + 1) = sint i + 1" using le Suc.prems by (intro sint_succ) simp
  have k: "k = nat (sint hi - sint (i + 1) + 1)" using Suc.hyps(2) s by simp
  have up: "[sint i..sint hi] = sint i # [sint (i + 1)..sint hi]"
    using le by (simp add: upto_rec1 s)
  have IH: "for_loop (i + 1) hi body acc' =
      fold_body body (map word_of_int [sint (i + 1)..sint hi]) acc'" for acc'
    using Suc.hyps(1) [OF k Suc.prems] .
  show ?case
    by (subst for_loop.simps) (simp add: le up IH split: option.splits sum.splits)
qed

lemma sint_tilesize: "sint TileSize = 256" by (simp add: TileSize_def)

lemma abs_sdiv_pos:
  fixes a b :: int
  assumes "0 < b"
  shows "\<bar>a sdiv b\<bar> = \<bar>a\<bar> div b"
proof -
  have "0 \<le> \<bar>a\<bar> div b" using assms by (simp add: pos_imp_zdiv_nonneg_iff)
  then show ?thesis using assms by (simp add: signed_divide_int_def sgn_if abs_mult)
qed

lemma sdiv_nonneg: "0 \<le> a \<Longrightarrow> 0 < b \<Longrightarrow> (a :: int) sdiv b = a div b"
  by (auto simp: signed_divide_int_def sgn_if)

lemma sdiv_neg: "a \<le> 0 \<Longrightarrow> 0 < b \<Longrightarrow> (a :: int) sdiv b = - ((- a) div b)"
  by (auto simp: signed_divide_int_def sgn_if)

lemma sint_go_div:
  assumes "1 < sint b"
  shows "sint (go_div a b) = sint a sdiv sint b"
    and "\<bar>sint (go_div a b)\<bar> \<le> 2 ^ 63 div sint b"
proof -
  have b: "0 < sint b" using assms by simp
  have abs: "\<bar>sint a\<bar> \<le> 2 ^ 63" using sint_range [of a] by simp
  have "\<bar>sint a\<bar> div sint b \<le> 2 ^ 63 div sint b"
    using abs b by (intro zdiv_mono1) simp_all
  moreover have "2 ^ 63 div sint b < (2 ^ 63 :: int)"
    using assms by (intro int_div_less_self) simp_all
  ultimately have r: "\<bar>sint a sdiv sint b\<bar> \<le> 2 ^ 63 div sint b" "2 ^ 63 div sint b < (2 ^ 63 :: int)"
    using abs_sdiv_pos [OF b, of "sint a"] by simp_all
  then show "sint (go_div a b) = sint a sdiv sint b"
    unfolding go_div_def by (intro sint_word_of_int_self) linarith+
  then show "\<bar>sint (go_div a b)\<bar> \<le> 2 ^ 63 div sint b" using r by simp
qed

lemma smod_wrap:
  fixes a N :: int
  assumes "0 < N"
  shows "- N < a smod N" "a smod N < N" "(a smod N + N) smod N = a mod N"
proof -
  have r: "a smod N \<in> {- \<bar>N\<bar> + 1..\<bar>N\<bar> - 1}" by (rule smod_int_range) (use assms in simp)
  then show "- N < a smod N" "a smod N < N" using assms by auto
  then have pos: "0 < a smod N + N" by simp
  have "(a smod N + N) smod N = (a smod N + N) mod N"
    using pos assms by (simp add: signed_modulo_int_def sgn_if)
  also have "\<dots> = (a smod N) mod N" by simp
  also have "\<dots> = a mod N"
    using assms by (simp add: smod_int_alt_def sgn_if mod_minus_eq)
  finally show "(a smod N + N) smod N = a mod N" .
qed

lemma shift_one: "push_bit k (1 :: go_int) = 2 ^ k"
  by (simp add: push_bit_of_1)

lemma shift_zero_iff: "(2 ^ k :: go_int) = 0 \<longleftrightarrow> 64 \<le> k"
  by (simp add: exp_eq_zero_iff)

lemma sint_pow2: "k < 63 \<Longrightarrow> sint (2 ^ k :: go_int) = 2 ^ k"
proof -
  assume k: "k < 63"
  have "(2 ^ k :: int) < 2 ^ 63" using k by (intro power_strict_increasing) simp_all
  moreover have "- (2 ^ 63) \<le> (2 ^ k :: int)" by (smt (verit) zero_le_power)
  ultimately have "sint (word_of_int (2 ^ k) :: go_int) = 2 ^ k"
    by (rule sint_word_of_int_self [rotated])
  then show ?thesis by simp
qed

lemma zoom_nonneg:
  assumes "\<not> zoom <s 0"
  shows "0 \<le> sint (zoom :: go_int)" "unat zoom = nat (sint zoom)"
proof -
  show nn: "0 \<le> sint zoom" using assms by (simp add: word_sless_alt)
  have "sint zoom < 2 ^ 64" using sint_range(2) [of zoom] by simp
  then have "uint zoom = sint zoom"
    using nn by (simp add: uint_sint [of zoom] take_bit_int_eq_self)
  then show "unat zoom = nat (sint zoom)" by (simp add: unat_eq_nat_uint)
qed

section \<open>The tiles of a view lie in the grid\<close>

lemma view_body_total: "\<exists>r. view_body cx cy zoom dx dy coords = Some r"
  by (simp add: view_body_def Let_def)

lemma sint_wrap_x:
  assumes k: "k < 63"
  shows "sint (go_mod (go_mod x (2 ^ k) + 2 ^ k) (2 ^ k)) = sint x mod 2 ^ k"
    and "go_mod (go_mod x (2 ^ k) + 2 ^ k) (2 ^ k) = word_of_int (sint x mod 2 ^ k)"
proof -
  define N :: int where "N = 2 ^ k"
  have N: "0 < N" "2 * N \<le> 2 ^ 63" "sint (2 ^ k :: go_int) = N"
  proof -
    show "0 < N" by (simp add: N_def)
    have "(2 :: int) ^ Suc k \<le> 2 ^ 63" using k by (intro power_increasing) simp_all
    then show "2 * N \<le> 2 ^ 63" by (simp add: N_def)
    show "sint (2 ^ k :: go_int) = N" using k by (simp add: N_def sint_pow2)
  qed
  note w = smod_wrap [OF N(1), of "sint x"]
  have a: "sint (go_mod x (2 ^ k)) = sint x smod N"
    unfolding go_mod_def N(3) using w(1,2) N(1,2) by (intro sint_word_of_int_self) linarith+
  have b: "sint (go_mod x (2 ^ k) + 2 ^ k) = sint x smod N + N"
    using w(1,2) N(1,2) by (subst sint_plus) (simp_all add: a N(3))
  have "0 \<le> sint x mod N" "sint x mod N < N" using N(1) by simp_all
  then have "sint (word_of_int (sint x mod N) :: go_int) = sint x mod N"
    using N(2) by (intro sint_word_of_int_self) linarith+
  moreover have e: "go_mod (go_mod x (2 ^ k) + 2 ^ k) (2 ^ k) = word_of_int (sint x mod N)"
    by (simp only: go_mod_def [of "go_mod x (2 ^ k) + 2 ^ k"] b N(3) w(3))
  ultimately show "sint (go_mod (go_mod x (2 ^ k) + 2 ^ k) (2 ^ k)) = sint x mod 2 ^ k"
    by (simp add: N_def)
  show "go_mod (go_mod x (2 ^ k) + 2 ^ k) (2 ^ k) = word_of_int (sint x mod 2 ^ k)"
    using e by (simp add: N_def)
qed

lemma view_body_valid_zoom:
  assumes "0 \<le> sint zoom" "sint zoom \<le> 62"
  shows "view_body cx cy zoom dx dy coords = Some (Inr (coords @ tile_at cx cy zoom dx dy))"
proof -
  define k where "k = nat (sint zoom)"
  have k: "k < 63" using assms by (simp add: k_def)
  have z: "\<not> zoom <s 0" using assms(1) by (simp add: word_sless_alt)
  have u: "unat zoom = k" using zoom_nonneg(2) [OF z] by (simp add: k_def)
  have n0: "(2 ^ k :: go_int) \<noteq> 0" using k by (simp add: shift_zero_iff)
  have sn: "sint (2 ^ k :: go_int) = 2 ^ k" using k by (rule sint_pow2)
  have x: "go_mod (go_mod (cx + dx) (2 ^ k) + 2 ^ k) (2 ^ k) = word_of_int (sint (cx + dx) mod 2 ^ k)"
    using k by (rule sint_wrap_x(2))
  show ?thesis
    unfolding view_body_def tile_at_def Let_def k_def [symmetric] u shift_one
    using z n0 by (simp add: x word_sless_alt word_sle_eq sn not_le)
qed

lemma tile_at_in_grid:
  assumes "0 \<le> sint zoom" "sint zoom \<le> 62" "c \<in> set (tile_at cx cy zoom dx dy)"
  shows "in_grid zoom c"
proof -
  define k where "k = nat (sint zoom)"
  have k: "k < 63" using assms by (simp add: k_def)
  have "(2 :: int) ^ Suc k \<le> 2 ^ 63" using k by (intro power_increasing) simp_all
  then have N: "(2 :: int) ^ k < 2 ^ 63" by simp
  have m: "0 \<le> sint (cx + dx) mod 2 ^ k" "sint (cx + dx) mod 2 ^ k < 2 ^ k" by simp_all
  have "sint (word_of_int (sint (cx + dx) mod 2 ^ k) :: go_int) = sint (cx + dx) mod 2 ^ k"
    using m N by (intro sint_word_of_int_self) linarith+
  then show ?thesis
    using assms(3) m by (auto simp: tile_at_def in_grid_def k_def [symmetric] split: if_splits)
qed

lemma view_body_in_grid:
  assumes "view_body cx cy zoom dx dy coords = Some (Inr r)" "\<forall>c \<in> set coords. in_grid zoom c"
  shows "\<forall>c \<in> set r. in_grid zoom c"
proof (cases "0 \<le> sint zoom \<and> sint zoom \<le> 62")
  case True
  then have "r = coords @ tile_at cx cy zoom dx dy"
    using assms(1) view_body_valid_zoom [of zoom cx cy dx dy coords] by simp
  then show ?thesis using assms(2) True tile_at_in_grid by auto
next
  case False
  have "r = coords"
  proof (cases "zoom <s 0")
    case True
    then show ?thesis using assms(1) by (simp add: view_body_def Let_def)
  next
    case z: False
    then have "63 \<le> sint zoom" using False by (simp add: word_sless_alt)
    then have u: "63 \<le> unat zoom" using zoom_nonneg(2) [OF z] by simp
    show ?thesis
    proof (cases "unat zoom = 63")
      case True
      have "push_bit (unat zoom) (1 :: go_int) \<le>s cy + dy"
        using sint_range(1) [of "cy + dy"] by (simp add: True shift_one word_sle_eq)
      then show ?thesis using assms(1) z by (simp add: view_body_def Let_def split: if_splits)
    next
      case False
      then have "push_bit (unat zoom) (1 :: go_int) = 0"
        using u by (simp add: shift_one shift_zero_iff)
      then show ?thesis using assms(1) z by (simp add: view_body_def Let_def)
    qed
  qed
  then show ?thesis using assms(2) by simp
qed

lemma fold_body_total:
  "(\<And>i acc. \<exists>r. body i acc = Some r) \<Longrightarrow> \<exists>r. fold_body body is acc = Some r"
proof (induction "is" arbitrary: acc)
  case Nil
  then show ?case by simp
next
  case (Cons i "is")
  obtain r where r: "body i acc = Some r" using Cons.prems by blast
  show ?case
  proof (cases r)
    case (Inl e)
    then show ?thesis using r by simp
  next
    case (Inr acc')
    then show ?thesis using r Cons.IH [OF Cons.prems, of acc'] by simp
  qed
qed

lemma fold_body_invariant:
  assumes "\<And>i acc acc'. P acc \<Longrightarrow> body i acc = Some (Inr acc') \<Longrightarrow> P acc'"
  shows "P acc \<Longrightarrow> fold_body body is acc = Some (Inr r) \<Longrightarrow> P r"
proof (induction "is" arbitrary: acc)
  case Nil
  then show ?case by simp
next
  case (Cons i "is")
  from Cons.prems(2) obtain acc' where a: "body i acc = Some (Inr acc')"
      and f: "fold_body body is acc' = Some (Inr r)"
    by (auto split: option.splits sum.splits)
  have "P acc'" using assms [OF Cons.prems(1) a] .
  then show ?case using Cons.IH f by blast
qed

lemma fold_body_append:
  "fold_body (\<lambda>i acc. Some (Inr (acc @ f i))) is acc = Some (Inr (acc @ concat (map f is)))"
  by (induction "is" arbitrary: acc) simp_all

lemma half_bound: "sint (go_div a 2) < 2 ^ 63 - 1" "\<bar>sint (go_div a 2)\<bar> \<le> 2 ^ 62"
  using sint_go_div(2) [of 2 a] by simp_all

lemma for_loop_span:
  "for_loop (go_div (- t) 2) (go_div t 2) body acc = fold_body body (span t) acc"
  unfolding span_def by (rule for_loop_fold) (rule half_bound)

lemma GetTilesForView_fold:
  "GetTilesForView L lat lon zoom screenW screenH =
     (case L lat lon zoom of (cx, cy) \<Rightarrow>
        fold_body (\<lambda>dx. fold_body (\<lambda>dy. view_body cx cy zoom dx dy) (span (go_div screenH TileSize + 2)))
          (span (go_div screenW TileSize + 2)) [])"
  unfolding GetTilesForView_def Let_def for_loop_span by (rule refl)

lemma GetTilesForView_returns: "\<exists>r. GetTilesForView L lat lon zoom screenW screenH = Some r"
proof -
  obtain cx cy where c: "L lat lon zoom = (cx, cy)" by (cases "L lat lon zoom")
  have inner: "\<exists>r. fold_body (\<lambda>dy. view_body cx cy zoom dx dy) ys acc = Some r" for dx ys acc
    by (rule fold_body_total) (rule view_body_total)
  show ?thesis
    unfolding GetTilesForView_fold c by (simp only: prod.case) (rule fold_body_total, rule inner)
qed

lemma GetTilesForView_in_grid:
  assumes "GetTilesForView L lat lon zoom screenW screenH = Some (Inr coords)"
  shows "\<forall>c \<in> set coords. in_grid zoom c"
proof -
  obtain cx cy where c: "L lat lon zoom = (cx, cy)" by (cases "L lat lon zoom")
  let ?P = "\<lambda>acc. \<forall>c \<in> set acc. in_grid zoom c"
  have inner: "?P r" if "?P acc" "fold_body (\<lambda>dy. view_body cx cy zoom dx dy) ys acc = Some (Inr r)"
    for dx ys acc r
    using that(1) that(2)
    by (rule fold_body_invariant [where P = ?P, rotated]) (rule view_body_in_grid)
  have "?P []" by simp
  moreover have "fold_body (\<lambda>dx. fold_body (\<lambda>dy. view_body cx cy zoom dx dy) (span (go_div screenH TileSize + 2)))
          (span (go_div screenW TileSize + 2)) [] = Some (Inr coords)"
    using assms unfolding GetTilesForView_fold c by simp
  ultimately show ?thesis
    by (rule fold_body_invariant [where P = ?P, rotated]) (rule inner)
qed

lemma GetTilesForView_enumerates:
  assumes "0 \<le> sint zoom" "sint zoom \<le> 62" "L lat lon zoom = (cx, cy)"
  shows "GetTilesForView L lat lon zoom screenW screenH =
     Some (Inr (concat (map (\<lambda>dx. concat (map (\<lambda>dy. tile_at cx cy zoom dx dy)
                                     (span (go_div screenH TileSize + 2))))
                            (span (go_div screenW TileSize + 2)))))"
proof -
  have body: "(\<lambda>dy. view_body cx cy zoom dx dy) = (\<lambda>dy acc. Some (Inr (acc @ tile_at cx cy zoom dx dy)))" for dx
    by (intro ext) (rule view_body_valid_zoom [OF assms(1,2)])
  have inner: "fold_body (\<lambda>dy acc. Some (Inr (acc @ tile_at cx cy zoom dx dy))) ys =
      (\<lambda>acc. Some (Inr (acc @ concat (map (\<lambda>dy. tile_at cx cy zoom dx dy) ys))))" for dx ys
    by (intro ext) (rule fold_body_append)
  show ?thesis
    unfolding GetTilesForView_fold assms(3) prod.case body inner by (simp add: fold_body_append)
qed

lemma span_256: "span (go_div 256 TileSize + 2) = [- 1, 0, 1]"
  by (simp add: span_def go_div_def TileSize_def signed_divide_int_def upto_rec1)

text \<open>
  C4. For every centre tile that \<^verbatim>\<open>LatLonToTile\<close> may return, every zoom and every
  viewport size, \<^verbatim>\<open>GetTilesForView\<close> returns (it does not loop forever; it panics
  only for a negative zoom or a zoom of 64 or more), and every coordinate it
  returns has \<open>0 \<le> x < 2 ^ zoom\<close>, \<open>0 \<le> y < 2 ^ zoom\<close> and \<open>z = zoom\<close>. For a
  zoom from 0 to 62 it returns, for every pair of offsets in turn, the tile whose
  X is the column wrapped modulo \<open>2 ^ zoom\<close> and whose Y is the row, unless the
  row is outside \<open>[0, 2 ^ zoom)\<close>, in which case the tile is dropped.
\<close>

theorem GetTilesForView_coords_in_grid:
  "(\<exists>r. GetTilesForView L lat lon zoom screenW screenH = Some r)
   \<and> (0 \<le> sint zoom \<and> sint zoom \<le> 62 \<and> L lat lon zoom = (cx, cy) \<longrightarrow>
        GetTilesForView L lat lon zoom screenW screenH =
          Some (Inr (concat (map (\<lambda>dx. concat (map (\<lambda>dy. tile_at cx cy zoom dx dy)
                                          (span (go_div screenH TileSize + 2))))
                                 (span (go_div screenW TileSize + 2))))))
   \<and> (\<forall>coords. GetTilesForView L lat lon zoom screenW screenH = Some (Inr coords) \<longrightarrow>
        (\<forall>c \<in> set coords.
           0 \<le> sint (X c) \<and> sint (X c) < 2 ^ nat (sint zoom)
           \<and> 0 \<le> sint (Y c) \<and> sint (Y c) < 2 ^ nat (sint zoom) \<and> Z c = zoom))"
  using GetTilesForView_returns [of L lat lon zoom screenW screenH]
    GetTilesForView_enumerates [of zoom L lat lon cx cy screenW screenH]
    GetTilesForView_in_grid [of L lat lon zoom screenW screenH]
  unfolding in_grid_def by blast

theorem GetTilesForView_coords_in_grid_witness:
  "GetTilesForView (center_at 0 0) () () 2 256 256 =
     Some (Inr [\<lparr>X = 3, Y = 0, Z = 2\<rparr>, \<lparr>X = 3, Y = 1, Z = 2\<rparr>, \<lparr>X = 0, Y = 0, Z = 2\<rparr>,
                \<lparr>X = 0, Y = 1, Z = 2\<rparr>, \<lparr>X = 1, Y = 0, Z = 2\<rparr>, \<lparr>X = 1, Y = 1, Z = 2\<rparr>])
   \<and> list_all (in_grid 2)
         [\<lparr>X = 3, Y = 0, Z = 2\<rparr>, \<lparr>X = 3, Y = 1, Z = 2\<rparr>, \<lparr>X = 0, Y = 0, Z = 2\<rparr>,
          \<lparr>X = 0, Y = 1, Z = 2\<rparr>, \<lparr>X = 1, Y = 0, Z = 2\<rparr>, \<lparr>X = 1, Y = 1, Z = 2\<rparr>]"
proof -
  have z: "0 \<le> sint (2 :: go_int) \<and> sint (2 :: go_int) \<le> 62 \<and> center_at 0 0 () () (2 :: go_int) = (0, 0)"
    by (simp add: center_at_def)
  have g: "GetTilesForView (center_at 0 0) () () 2 256 256 =
     Some (Inr [\<lparr>X = 3, Y = 0, Z = 2\<rparr>, \<lparr>X = 3, Y = 1, Z = 2\<rparr>, \<lparr>X = 0, Y = 0, Z = 2\<rparr>,
                \<lparr>X = 0, Y = 1, Z = 2\<rparr>, \<lparr>X = 1, Y = 0, Z = 2\<rparr>, \<lparr>X = 1, Y = 1, Z = 2\<rparr>])"
    using GetTilesForView_coords_in_grid [of "center_at 0 0" "()" "()" 2 256 256 0 0] z
    by (simp add: span_256 tile_at_def)
  show ?thesis
    using GetTilesForView_coords_in_grid [of "center_at 0 0" "()" "()" 2 256 256 0 0] g
    by (simp add: in_grid_def)
qed

section \<open>The block of tiles of a view\<close>

lemma sdiv_minus_left: "(- a) sdiv b = - (a sdiv b)" for a b :: int
  by (simp add: signed_divide_int_def)

lemma span_half:
  "span (go_div screen TileSize + 2) = map word_of_int [- half_span screen..half_span screen]"
proof -
  define d where "d = sint screen sdiv 256"
  have "\<bar>d\<bar> \<le> 2 ^ 63 div 256"
    using sint_go_div [of TileSize screen] by (simp add: sint_tilesize d_def)
  then have d: "\<bar>d\<bar> \<le> 2 ^ 55" by simp
  have q: "sint (go_div screen TileSize) = d"
    using sint_go_div(1) [of TileSize screen] by (simp add: sint_tilesize d_def)
  define tw where "tw = go_div screen TileSize + 2"
  have t: "sint tw = d + 2"
    unfolding tw_def using d by (subst sint_plus) (simp_all add: q)
  have nt: "sint (- tw) = - (d + 2)"
  proof -
    have "sint (word_of_int (- (d + 2)) :: go_int) = - (d + 2)"
      using d by (intro sint_word_of_int_self) simp_all
    moreover have "tw = word_of_int (d + 2)"
      using word_of_sint [of tw] by (simp only: t)
    ultimately show ?thesis by simp
  qed
  have h: "(d + 2) sdiv 2 = half_span screen" by (simp add: half_span_def d_def)
  have hi: "sint (go_div tw 2) = half_span screen"
    using sint_go_div(1) [of 2 tw] by (simp add: t h)
  have lo: "sint (go_div (- tw) 2) = - half_span screen"
  proof -
    have "sint (go_div (- tw) 2) = sint (- tw) sdiv 2"
      using sint_go_div(1) [of 2 "- tw"] by simp
    also have "\<dots> = (- (d + 2)) sdiv 2" by (simp only: nt)
    also have "\<dots> = - ((d + 2) sdiv 2)" by (rule sdiv_minus_left)
    also have "\<dots> = - half_span screen" by (simp only: h)
    finally show ?thesis .
  qed
  show ?thesis unfolding span_def tw_def [symmetric] hi lo ..
qed

lemma pow2_le_62: "k < 63 \<Longrightarrow> (2 :: int) ^ k \<le> 2 ^ 62"
  by (intro power_increasing) simp_all

lemma sint_offset_mod:
  assumes "k \<le> 64"
  shows "sint (c + word_of_int d :: go_int) mod 2 ^ k = (sint c + d) mod 2 ^ k"
proof -
  have "take_bit k (sint (c + word_of_int d :: go_int)) = take_bit k (sint c + sint (word_of_int d :: go_int))"
    using assms by (simp add: sint_word_ariths take_bit_signed_take_bit)
  also have "\<dots> = take_bit k (take_bit k (sint c) + take_bit k (sint (word_of_int d :: go_int)))"
    by (simp add: take_bit_add)
  also have "take_bit k (sint (word_of_int d :: go_int)) = take_bit k d"
    using assms by (simp add: sint_sbintrunc' take_bit_signed_take_bit)
  also have "take_bit k (take_bit k (sint c) + take_bit k d) = take_bit k (sint c + d)"
    by (simp add: take_bit_add)
  finally show ?thesis by (simp add: take_bit_eq_mod)
qed

lemma tile_at_offset:
  assumes "sint zoom \<le> 62"
  shows "tile_at cx cy zoom (word_of_int dx) (word_of_int dy) = offset_tile cx cy zoom dx dy"
proof -
  have "nat (sint zoom) \<le> 64" using assms by simp
  then show ?thesis
    unfolding tile_at_def offset_tile_def by (simp only: sint_offset_mod)
qed

lemma GetTilesForView_view_tiles:
  assumes "0 \<le> sint zoom" "sint zoom \<le> 62" "L lat lon zoom = (cx, cy)"
  shows "GetTilesForView L lat lon zoom screenW screenH =
     Some (Inr (view_tiles cx cy zoom (half_span screenW) (half_span screenH)))"
proof -
  have "GetTilesForView L lat lon zoom screenW screenH =
      Some (Inr (concat (map (\<lambda>dx. concat (map (\<lambda>dy. tile_at cx cy zoom dx dy)
                                     (span (go_div screenH TileSize + 2))))
                             (span (go_div screenW TileSize + 2)))))"
    using assms by (rule GetTilesForView_enumerates)
  also have "\<dots> = Some (Inr (view_tiles cx cy zoom (half_span screenW) (half_span screenH)))"
    unfolding span_half view_tiles_def map_map comp_def tile_at_offset [OF assms(2)] ..
  finally show ?thesis .
qed


lemma sint_offset:
  assumes "0 \<le> sint c" "sint c \<le> 2 ^ 62" "\<bar>d\<bar> < 2 ^ 62"
  shows "sint (c + word_of_int d :: go_int) = sint c + d"
proof -
  have d: "sint (word_of_int d :: go_int) = d"
    using assms(3) by (intro sint_word_of_int_self) simp_all
  show ?thesis using assms by (subst sint_plus) (simp_all add: d)
qed

lemma offset_tile_in_block:
  assumes zoom: "0 \<le> sint zoom" "sint zoom \<le> 62"
    and poles: "hy \<le> sint cy" "sint cy + hy < 2 ^ nat (sint zoom)"
    and dy: "- hy \<le> dy" "dy \<le> hy"
  shows "offset_tile cx cy zoom dx dy = [grid_tile zoom (sint cx + dx) (sint cy + dy)]"
proof -
  have N: "(2 :: int) ^ nat (sint zoom) \<le> 2 ^ 62"
    using zoom by (intro pow2_le_62) simp
  have b: "0 \<le> sint cy" "sint cy \<le> 2 ^ 62" "\<bar>dy\<bar> < 2 ^ 62"
    using poles dy N by simp_all
  have y: "sint (cy + word_of_int dy) = sint cy + dy"
    using b by (rule sint_offset)
  have r: "0 \<le> sint cy + dy" "sint cy + dy < 2 ^ nat (sint zoom)"
    using poles dy by simp_all
  show ?thesis
    unfolding offset_tile_def grid_tile_def y using r by simp
qed

lemma view_tiles_block:
  assumes zoom: "0 \<le> sint zoom" "sint zoom \<le> 62"
    and poles: "hy \<le> sint cy" "sint cy + hy < 2 ^ nat (sint zoom)"
  shows "view_tiles cx cy zoom hx hy = view_block cx cy zoom hx hy"
proof -
  have inner: "concat (map (\<lambda>dy. offset_tile cx cy zoom dx dy) [- hy..hy])
      = map (\<lambda>dy. grid_tile zoom (sint cx + dx) (sint cy + dy)) [- hy..hy]" for dx
  proof -
    have "map (\<lambda>dy. offset_tile cx cy zoom dx dy) [- hy..hy]
        = map (\<lambda>dy. [grid_tile zoom (sint cx + dx) (sint cy + dy)]) [- hy..hy]"
      by (rule map_cong [OF refl]) (rule offset_tile_in_block [OF zoom poles], simp_all)
    then show ?thesis by (simp only: concat_map_singleton)
  qed
  show ?thesis by (simp only: view_tiles_def view_block_def inner)
qed

lemma block_as_product:
  "concat (map (\<lambda>x. map (g x) ys) xs) = map (\<lambda>(x, y). g x y) (List.product xs ys)"
  by (induction xs) (simp_all add: comp_def)

lemma length_view_block:
  "length (view_block cx cy zoom hx hy) = nat (2 * hx + 1) * nat (2 * hy + 1)"
  by (simp add: view_block_def block_as_product)

lemma word_of_int_inj:
  assumes "word_of_int a = (word_of_int b :: go_int)"
    and "- (2 ^ 63) \<le> a" "a < 2 ^ 63" "- (2 ^ 63) \<le> b" "b < 2 ^ 63"
  shows "a = b"
proof -
  have "sint (word_of_int a :: go_int) = sint (word_of_int b :: go_int)"
    by (simp only: assms(1))
  then show ?thesis
    by (simp only: sint_word_of_int_self [OF assms(2,3)] sint_word_of_int_self [OF assms(4,5)])
qed

lemma mod_inj_window:
  fixes a b N :: int
  assumes "a mod N = b mod N" "\<bar>a - b\<bar> < N"
  shows "a = b"
proof (rule ccontr)
  assume "a \<noteq> b"
  then have "a - b \<noteq> 0" by simp
  moreover have "N dvd a - b" using assms(1) by (simp add: mod_eq_dvd_iff)
  ultimately have "\<bar>N\<bar> \<le> \<bar>a - b\<bar>" by (rule dvd_imp_le_int)
  then show False using assms(2) by simp
qed

lemma mod_in_word_range:
  fixes a N :: int
  assumes "0 < N" "N \<le> 2 ^ 62"
  shows "- (2 ^ 63) \<le> a mod N" "a mod N < 2 ^ 63"
proof -
  have m: "0 \<le> a mod N" "a mod N < N" using assms(1) by simp_all
  have p: "(0 :: int) \<le> 2 ^ 62" "(2 :: int) ^ 62 < 2 ^ 63" by simp_all
  show "- (2 ^ 63) \<le> a mod N" using m p by linarith
  show "a mod N < 2 ^ 63" using m p assms(2) by linarith
qed

lemma distinct_view_block:
  assumes zoom: "0 \<le> sint zoom" "sint zoom \<le> 62"
    and poles: "hy \<le> sint cy" "sint cy + hy < 2 ^ nat (sint zoom)"
    and wide: "2 * hx + 1 \<le> 2 ^ nat (sint zoom)"
  shows "distinct (view_block cx cy zoom hx hy)"
proof -
  define N :: int where "N = 2 ^ nat (sint zoom)"
  have N: "0 < N" "N \<le> 2 ^ 62"
  proof -
    show "0 < N" by (simp add: N_def)
    show "N \<le> 2 ^ 62" unfolding N_def using zoom by (intro pow2_le_62) simp
  qed
  let ?g = "\<lambda>(dx, dy). grid_tile zoom (sint cx + dx) (sint cy + dy)"
  have "inj_on ?g (set (List.product [- hx..hx] [- hy..hy]))"
  proof (rule inj_onI, clarify)
    fix dx dy dx' dy'
    assume m: "(dx, dy) \<in> set (List.product [- hx..hx] [- hy..hy])"
        "(dx', dy') \<in> set (List.product [- hx..hx] [- hy..hy])"
      and e: "grid_tile zoom (sint cx + dx) (sint cy + dy) = grid_tile zoom (sint cx + dx') (sint cy + dy')"
    have r: "\<bar>dx\<bar> \<le> hx" "\<bar>dx'\<bar> \<le> hx" "\<bar>dy\<bar> \<le> hy" "\<bar>dy'\<bar> \<le> hy"
      using m by auto
    have ex: "word_of_int ((sint cx + dx) mod N) = (word_of_int ((sint cx + dx') mod N) :: go_int)"
      and ey: "word_of_int (sint cy + dy) = (word_of_int (sint cy + dy') :: go_int)"
      using e by (simp_all add: grid_tile_def N_def)
    have "(sint cx + dx) mod N = (sint cx + dx') mod N"
      by (intro word_of_int_inj [OF ex] mod_in_word_range N)
    moreover have "\<bar>(sint cx + dx) - (sint cx + dx')\<bar> < N"
      using r wide by (simp add: N_def)
    ultimately have "sint cx + dx = sint cx + dx'" by (rule mod_inj_window)
    moreover have "sint cy + dy = sint cy + dy'"
      using r poles N by (intro word_of_int_inj [OF ey]) (simp_all add: N_def)
    ultimately show "dx = dx' \<and> dy = dy'" by simp
  qed
  moreover have "distinct (List.product [- hx..hx] [- hy..hy])"
    by (simp add: distinct_product)
  ultimately show ?thesis
    by (simp add: view_block_def block_as_product distinct_map)
qed

lemma span_800: "span (go_div 800 TileSize + 2) = [- 2, - 1, 0, 1, 2]"
  by (simp add: span_def go_div_def TileSize_def signed_divide_int_def upto_rec1)

lemma span_480: "span (go_div 480 TileSize + 2) = [- 1, 0, 1]"
  by (simp add: span_def go_div_def TileSize_def signed_divide_int_def upto_rec1)

lemma half_span_examples: "half_span 800 = 2" "half_span 480 = 1" "half_span (- 1) = 1"
  by (simp_all add: half_span_def signed_divide_int_def)

text \<open>
  C5, as the code has it. For a zoom from 0 to 62 and whatever centre tile
  \<open>(cx, cy)\<close> \<^verbatim>\<open>LatLonToTile\<close> returns for the view centre, \<^verbatim>\<open>GetTilesForView\<close>
  enumerates the rectangular block of offsets \<open>dx = -hx..hx\<close> by \<open>dy = -hy..hy\<close>
  centred on that tile, \<open>2 * hx + 1\<close> columns by \<open>2 * hy + 1\<close> rows, where
  \<open>hx = (w / 256 + 2) / 2\<close> and \<open>hy = (h / 256 + 2) / 2\<close> in Go's truncating
  division (no column or row when the reach is negative). For each offset in
  turn it returns the tile with X the column \<open>cx + dx\<close> modulo \<open>2 ^ zoom\<close> and Y
  the row \<open>cy + dy\<close>, and drops the tile when the row is outside \<open>[0, 2 ^ zoom)\<close>.
  Away from the poles (\<open>hy \<le> cy\<close> and \<open>cy + hy < 2 ^ zoom\<close>) and at a zoom
  high enough for the block not to wrap onto itself (\<open>2 * hx + 1 \<le> 2 ^ zoom\<close>),
  no tile is dropped, the block has \<open>(2 * hx + 1) * (2 * hy + 1)\<close> tiles and every
  tile occurs once. For an 800 by 480 viewport that is 5 columns by 3 rows, 15
  tiles; for a width of -1 the truncation of \<^verbatim>\<open>-1 / 256\<close> to 0 gives 3 columns.
\<close>

theorem GetTilesForView_block:
  assumes zoom: "0 \<le> sint zoom" "sint zoom \<le> 62"
    and center: "L lat lon zoom = (cx, cy)"
  shows "GetTilesForView L lat lon zoom screenW screenH =
           Some (Inr (view_tiles cx cy zoom (half_span screenW) (half_span screenH)))
     \<and> (half_span screenH \<le> sint cy \<and> sint cy + half_span screenH < 2 ^ nat (sint zoom)
          \<and> 2 * half_span screenW + 1 \<le> 2 ^ nat (sint zoom) \<longrightarrow>
         view_tiles cx cy zoom (half_span screenW) (half_span screenH)
           = view_block cx cy zoom (half_span screenW) (half_span screenH)
         \<and> length (view_block cx cy zoom (half_span screenW) (half_span screenH))
             = nat (2 * half_span screenW + 1) * nat (2 * half_span screenH + 1)
         \<and> distinct (view_block cx cy zoom (half_span screenW) (half_span screenH)))"
proof -
  have "GetTilesForView L lat lon zoom screenW screenH =
      Some (Inr (view_tiles cx cy zoom (half_span screenW) (half_span screenH)))"
    using zoom center by (rule GetTilesForView_view_tiles)
  moreover have "view_tiles cx cy zoom (half_span screenW) (half_span screenH)
      = view_block cx cy zoom (half_span screenW) (half_span screenH)"
    if "half_span screenH \<le> sint cy" "sint cy + half_span screenH < 2 ^ nat (sint zoom)"
    using zoom that by (rule view_tiles_block)
  moreover have "distinct (view_block cx cy zoom (half_span screenW) (half_span screenH))"
    if "half_span screenH \<le> sint cy" "sint cy + half_span screenH < 2 ^ nat (sint zoom)"
      "2 * half_span screenW + 1 \<le> 2 ^ nat (sint zoom)"
    using zoom that by (rule distinct_view_block)
  ultimately show ?thesis
    using length_view_block [of cx cy zoom "half_span screenW" "half_span screenH"] by blast
qed

theorem GetTilesForView_block_witness:
  "GetTilesForView (center_at 12100 18526) () () 15 800 480 = Some (Inr (view_block 12100 18526 15 2 1))
   \<and> length (view_block 12100 18526 15 2 1) = 15
   \<and> distinct (view_block 12100 18526 15 2 1)
   \<and> GetTilesForView (center_at 12100 18526) () () 15 (- 1) 480 = Some (Inr (view_block 12100 18526 15 1 1))
   \<and> length (view_block 12100 18526 15 1 1) = 9"
  using GetTilesForView_block [of 15 "center_at 12100 18526" "()" "()" 12100 18526 800 480]
    GetTilesForView_block [of 15 "center_at 12100 18526" "()" "()" 12100 18526 "- 1" 480]
  by (simp add: half_span_examples center_at_def)

text \<open>
  The counts of the claim, \<open>ceil (w / 256) + 2\<close> columns by \<open>ceil (h / 256) + 2\<close>
  rows, are 6 by 4 for an 800 by 480 viewport; the code returns 5 columns by 3
  rows there.
\<close>

theorem GetTilesForView_800x480_counterexample:
  "GetTilesForView (center_at 12100 18526) () () 15 800 480 = Some (Inr campinas_block)
   \<and> length campinas_block = 15
   \<and> length (remdups (map X campinas_block)) = 5 \<and> spec_tiles_per_axis 800 = 6
   \<and> length (remdups (map Y campinas_block)) = 3 \<and> spec_tiles_per_axis 480 = 4"
proof -
  have "GetTilesForView (center_at 12100 18526) () () 15 800 480 = Some (Inr campinas_block)"
    by (subst GetTilesForView_enumerates [where cx = 12100 and cy = 18526])
      (simp_all add: center_at_def span_800 span_480 tile_at_def campinas_block_def)
  then show ?thesis
    by (simp add: campinas_block_def spec_tiles_per_axis_def)
qed

end
